theory Spec2Isabelle
  imports Complex_Main
begin

section \<open>The Moebius strip model of \<^verbatim>\<open>mobius_strip.py\<close>\<close>

text \<open>
  The source computes with NumPy arrays of IEEE doubles. The embedding idealises a double
  as a \<^typ>\<open>real\<close>: every arithmetic operation, \<open>cos\<close>, \<open>sin\<close> and \<open>sqrt\<close> is the exact
  one, so nothing below speaks about rounding. A one-dimensional array is a list, a
  two-dimensional array a list of rows. Python exceptions are values of \<open>error\<close>.
\<close>

datatype error = InvalidParameter | ValueError | IndexError

type_synonym grid = "real list list"

record MobiusStrip =
  self_R :: real
  self_w :: real
  self_n :: int
  self_u :: "real list"
  self_v :: "real list"
  self_U :: grid
  self_V :: grid
  self_mesh :: "(grid \<times> grid \<times> grid) option"

subsection \<open>The NumPy operations the class calls\<close>

text \<open>
  \<^verbatim>\<open>np.linspace(start, stop, num)\<close> with the default \<open>endpoint=True\<close>: a negative
  \<open>num\<close> raises \<open>ValueError\<close>; otherwise the samples are \<open>arange(num) * step + start\<close> with
  \<open>step = (stop - start) / (num - 1)\<close> when \<open>num - 1 > 0\<close> (and \<open>arange(num) * delta + start\<close>
  when it is not), and for \<open>num > 1\<close> the last sample is overwritten with \<open>stop\<close>.
\<close>

definition linspace :: "real \<Rightarrow> real \<Rightarrow> int \<Rightarrow> error + real list" where
  "linspace start stop num =
     (if num < 0 then Inl ValueError
      else
        let dv = num - 1;
            delta = stop - start;
            y = map (\<lambda>i. if dv > 0 then real i * (delta / real_of_int dv) + start
                           else real i * delta + start) [0..<nat num]
        in Inr (if num > 1 then y[nat num - 1 := stop] else y))"

text \<open>
  \<^verbatim>\<open>np.meshgrid(xs, ys)\<close> with the default \<open>indexing='xy'\<close>: both results have
  \<open>len(ys)\<close> rows and \<open>len(xs)\<close> columns; row \<open>j\<close> of the first is \<open>xs\<close>, row \<open>j\<close> of
  the second is constantly \<open>ys[j]\<close>.
\<close>

definition meshgrid :: "real list \<Rightarrow> real list \<Rightarrow> grid \<times> grid" where
  "meshgrid xs ys = (replicate (length ys) xs, map (\<lambda>y. replicate (length xs) y) ys)"

text \<open>
  An arithmetic expression over two arrays of one shape, evaluated elementwise. The only
  arrays the class combines are \<open>self.U\<close> and \<open>self.V\<close>, which come from one call of
  \<open>meshgrid\<close> and have one shape; NumPy's broadcasting of unequal shapes is not modelled.
\<close>

definition elementwise :: "(real \<Rightarrow> real \<Rightarrow> real) \<Rightarrow> grid \<Rightarrow> grid \<Rightarrow> grid" where
  "elementwise f A B = map2 (map2 f) A B"

text \<open>\<^verbatim>\<open>np.sum\<close> of a two-dimensional array adds up every element.\<close>

definition np_sum :: "grid \<Rightarrow> real" where
  "np_sum A = sum_list (concat A)"

text \<open>\<^verbatim>\<open>a[i]\<close> for a literal index \<open>i \<ge> 0\<close>: out of range raises \<open>IndexError\<close>.\<close>

definition getitem :: "real list \<Rightarrow> nat \<Rightarrow> error + real" where
  "getitem a i = (if i < length a then Inr (a ! i) else Inl IndexError)"

subsection \<open>\<^verbatim>\<open>_generate_mesh\<close> and \<^verbatim>\<open>__init__\<close>\<close>

definition mesh_x :: "real \<Rightarrow> real \<Rightarrow> real \<Rightarrow> real" where
  "mesh_x R u v = (R + v * cos (u / 2)) * cos u"

definition mesh_y :: "real \<Rightarrow> real \<Rightarrow> real \<Rightarrow> real" where
  "mesh_y R u v = (R + v * cos (u / 2)) * sin u"

definition mesh_z :: "real \<Rightarrow> real \<Rightarrow> real" where
  "mesh_z u v = v * sin (u / 2)"

definition generate_mesh :: "MobiusStrip \<Rightarrow> MobiusStrip" where
  "generate_mesh self =
     (let u = self_U self; v = self_V self;
          x = elementwise (mesh_x (self_R self)) u v;
          y = elementwise (mesh_y (self_R self)) u v;
          z = elementwise mesh_z u v
      in self\<lparr>self_mesh := Some (x, y, z)\<rparr>)"

definition init :: "real \<Rightarrow> real \<Rightarrow> int \<Rightarrow> error + MobiusStrip" where
  "init R w n =
     (case linspace 0 (2 * pi) n of
        Inl e \<Rightarrow> Inl e
      | Inr u \<Rightarrow>
          (case linspace (- w / 2) (w / 2) n of
             Inl e \<Rightarrow> Inl e
           | Inr v \<Rightarrow>
               (case meshgrid u v of
                  (gU, gV) \<Rightarrow>
                    Inr (generate_mesh
                      \<lparr>self_R = R, self_w = w, self_n = n, self_u = u, self_v = v,
                       self_U = gU, self_V = gV, self_mesh = None\<rparr>))))"

subsection \<open>\<^verbatim>\<open>compute_surface_area\<close>\<close>

text \<open>
  The value of the array \<open>integrand\<close> at one grid point: the nine lines of the source from
  \<open>x_u\<close> to \<open>integrand\<close>, at the point \<open>(u, v)\<close>.
\<close>

definition area_integrand :: "real \<Rightarrow> real \<Rightarrow> real \<Rightarrow> real" where
  "area_integrand R u v =
     (let x_u = - (R + v * cos (u / 2)) * sin u - (v / 2) * sin (u / 2) * cos u;
          y_u = (R + v * cos (u / 2)) * cos u - (v / 2) * sin (u / 2) * sin u;
          z_u = (v / 2) * cos (u / 2);
          x_v = cos (u / 2) * cos u;
          y_v = cos (u / 2) * sin u;
          z_v = sin (u / 2)
      in sqrt ((y_u * z_v - z_u * y_v)\<^sup>2 + (z_u * x_v - x_u * z_v)\<^sup>2
               + (x_u * y_v - y_u * x_v)\<^sup>2))"

text \<open>
  A method returns its result together with the object, so that what it does to the
  object is part of the model. \<open>self.u[1]\<close> is read before \<open>self.u[0]\<close>.
\<close>

definition compute_surface_area :: "MobiusStrip \<Rightarrow> (error + real) \<times> MobiusStrip" where
  "compute_surface_area self =
     (let u = self_U self; v = self_V self;
          integrand = elementwise (area_integrand (self_R self)) u v
      in case getitem (self_u self) 1 of
           Inl e \<Rightarrow> (Inl e, self)
         | Inr u1 \<Rightarrow>
          (case getitem (self_u self) 0 of
             Inl e \<Rightarrow> (Inl e, self)
           | Inr u0 \<Rightarrow>
            (let du = u1 - u0
             in case getitem (self_v self) 1 of
                  Inl e \<Rightarrow> (Inl e, self)
                | Inr v1 \<Rightarrow>
                 (case getitem (self_v self) 0 of
                    Inl e \<Rightarrow> (Inl e, self)
                  | Inr v0 \<Rightarrow>
                   (let dv = v1 - v0;
                        area = np_sum integrand * du * dv
                    in (Inr area, self))))))"

subsection \<open>\<^verbatim>\<open>compute_edge_length\<close>\<close>

text \<open>
  The value of the array \<open>integrand\<close> at one angular sample \<open>u\<close>: the lines of the source
  from \<open>dx_du\<close> to \<open>integrand\<close>. (The arrays \<open>x\<close>, \<open>y\<close>, \<open>z\<close> of the source are computed
  and never read.)
\<close>

definition edge_integrand :: "real \<Rightarrow> real \<Rightarrow> real \<Rightarrow> real" where
  "edge_integrand R w u =
     (let dx_du = - (R + (w / 2) * cos (u / 2)) * sin u - (w / 4) * sin (u / 2) * cos u;
          dy_du = (R + (w / 2) * cos (u / 2)) * cos u - (w / 4) * sin (u / 2) * sin u;
          dz_du = (w / 4) * cos (u / 2)
      in sqrt (dx_du\<^sup>2 + dy_du\<^sup>2 + dz_du\<^sup>2))"

definition compute_edge_length :: "MobiusStrip \<Rightarrow> (error + real) \<times> MobiusStrip" where
  "compute_edge_length self =
     (let u = self_u self;
          integrand = map (edge_integrand (self_R self) (self_w self)) u
      in case getitem u 1 of
           Inl e \<Rightarrow> (Inl e, self)
         | Inr u1 \<Rightarrow>
          (case getitem u 0 of
             Inl e \<Rightarrow> (Inl e, self)
           | Inr u0 \<Rightarrow>
            (let du = u1 - u0;
                 length = sum_list integrand * du
             in (Inr length, self))))"

text \<open>
  The two calls of the program's entry point, \<^verbatim>\<open>MobiusStrip(R, w, n).compute_surface_area()\<close>
  and \<^verbatim>\<open>MobiusStrip(R, w, n).compute_edge_length()\<close>.
\<close>

definition surface_area :: "real \<Rightarrow> real \<Rightarrow> int \<Rightarrow> error + real" where
  "surface_area R w n =
     (case init R w n of Inl e \<Rightarrow> Inl e | Inr self \<Rightarrow> fst (compute_surface_area self))"

definition edge_length :: "real \<Rightarrow> real \<Rightarrow> int \<Rightarrow> error + real" where
  "edge_length R w n =
     (case init R w n of Inl e \<Rightarrow> Inl e | Inr self \<Rightarrow> fst (compute_edge_length self))"

text \<open>
  The two results as functions of the width \<open>w\<close>, for a fixed radius and resolution
  (the value inside \<open>Inr\<close>; the calls do return one whenever \<open>n \<ge> 2\<close>).
\<close>

definition area_of_width :: "real \<Rightarrow> int \<Rightarrow> real \<Rightarrow> real" where
  "area_of_width R n w = projr (surface_area R w n)"

definition length_of_width :: "real \<Rightarrow> int \<Rightarrow> real \<Rightarrow> real" where
  "length_of_width R n w = projr (edge_length R w n)"

subsection \<open>Sequences of method calls\<close>

text \<open>
  A client may call the two query methods in any order, any number of times, on one object;
  each call receives the object the call before it left behind.
\<close>

datatype query = SurfaceArea | EdgeLength

fun call :: "query \<Rightarrow> MobiusStrip \<Rightarrow> (error + real) \<times> MobiusStrip" where
  "call SurfaceArea self = compute_surface_area self"
| "call EdgeLength self = compute_edge_length self"

fun run_calls :: "query list \<Rightarrow> MobiusStrip \<Rightarrow> (error + real) list \<times> MobiusStrip" where
  "run_calls [] self = ([], self)"
| "run_calls (q # qs) self =
     (case call q self of
        (r, self') \<Rightarrow> (case run_calls qs self' of (rs, self'') \<Rightarrow> (r # rs, self'')))"

subsection \<open>Shapes\<close>

definition has_shape :: "grid \<Rightarrow> nat \<Rightarrow> nat \<Rightarrow> bool" where
  "has_shape A r c = (length A = r \<and> list_all (\<lambda>row. length row = c) A)"

section \<open>The quantities the specification names\<close>

text \<open>
  The specification describes the two integrands through the derivatives of the position
  function, the cross product and the Euclidean norm. These definitions follow its words;
  the vectors \<open>partial_u\<close>, \<open>partial_v\<close> and \<open>edge_derivative\<close> collect the expressions
  that the source assigns to \<open>x_u, y_u, z_u\<close>, to \<open>x_v, y_v, z_v\<close> and to
  \<open>dx_du, dy_du, dz_du\<close>.
\<close>

type_synonym vec3 = "real \<times> real \<times> real"

definition cross3 :: "vec3 \<Rightarrow> vec3 \<Rightarrow> vec3" where
  "cross3 a b =
     (case a of (a1, a2, a3) \<Rightarrow> case b of (b1, b2, b3) \<Rightarrow>
        (a2 * b3 - a3 * b2, a3 * b1 - a1 * b3, a1 * b2 - a2 * b1))"

definition norm3 :: "vec3 \<Rightarrow> real" where
  "norm3 a = (case a of (a1, a2, a3) \<Rightarrow> sqrt (a1\<^sup>2 + a2\<^sup>2 + a3\<^sup>2))"

definition partial_u :: "real \<Rightarrow> real \<Rightarrow> real \<Rightarrow> vec3" where
  "partial_u R u v =
     (- (R + v * cos (u / 2)) * sin u - (v / 2) * sin (u / 2) * cos u,
      (R + v * cos (u / 2)) * cos u - (v / 2) * sin (u / 2) * sin u,
      (v / 2) * cos (u / 2))"

definition partial_v :: "real \<Rightarrow> vec3" where
  "partial_v u = (cos (u / 2) * cos u, cos (u / 2) * sin u, sin (u / 2))"

definition edge_derivative :: "real \<Rightarrow> real \<Rightarrow> real \<Rightarrow> vec3" where
  "edge_derivative R w u =
     (- (R + (w / 2) * cos (u / 2)) * sin u - (w / 4) * sin (u / 2) * cos u,
      (R + (w / 2) * cos (u / 2)) * cos u - (w / 4) * sin (u / 2) * sin u,
      (w / 4) * cos (u / 2))"

text \<open>
  \<open>derivative_in_u R u v D\<close>: the vector \<open>D\<close> is the derivative with respect to \<open>u\<close> of
  the position function at \<open>(u, v)\<close>; \<open>derivative_in_v\<close> likewise with respect to \<open>v\<close>.
\<close>

definition derivative_in_u :: "real \<Rightarrow> real \<Rightarrow> real \<Rightarrow> vec3 \<Rightarrow> bool" where
  "derivative_in_u R u v D =
     (((\<lambda>t. mesh_x R t v) has_real_derivative fst D) (at u)
    \<and> ((\<lambda>t. mesh_y R t v) has_real_derivative fst (snd D)) (at u)
    \<and> ((\<lambda>t. mesh_z t v) has_real_derivative snd (snd D)) (at u))"

definition derivative_in_v :: "real \<Rightarrow> real \<Rightarrow> real \<Rightarrow> vec3 \<Rightarrow> bool" where
  "derivative_in_v R u v D =
     (((\<lambda>t. mesh_x R u t) has_real_derivative fst D) (at v)
    \<and> ((\<lambda>t. mesh_y R u t) has_real_derivative fst (snd D)) (at v)
    \<and> ((\<lambda>t. mesh_z u t) has_real_derivative snd (snd D)) (at v))"

section \<open>Closed forms of the constructed model\<close>

text \<open>For \<open>n \<ge> 2\<close> the samples of \<open>linspace\<close> are \<open>start + i * step\<close>, the last one included.\<close>

definition samples :: "real \<Rightarrow> real \<Rightarrow> int \<Rightarrow> real list" where
  "samples a b n = map (\<lambda>i. a + real i * ((b - a) / (real_of_int n - 1))) [0..<nat n]"

text \<open>The object that \<open>__init__\<close> leaves behind when \<open>n \<ge> 2\<close>.\<close>

definition built :: "real \<Rightarrow> real \<Rightarrow> int \<Rightarrow> MobiusStrip" where
  "built R w n =
     (let us = samples 0 (2 * pi) n; vs = samples (- w / 2) (w / 2) n
      in \<lparr>self_R = R, self_w = w, self_n = n, self_u = us, self_v = vs,
          self_U = replicate (nat n) us,
          self_V = map (\<lambda>y. replicate (nat n) y) vs,
          self_mesh = Some (map (\<lambda>y. map (\<lambda>x. mesh_x R x y) us) vs,
                            map (\<lambda>y. map (\<lambda>x. mesh_y R x y) us) vs,
                            map (\<lambda>y. map (\<lambda>x. mesh_z x y) us) vs)\<rparr>)"

text \<open>The values the two methods return on that object.\<close>

definition area_sum :: "real \<Rightarrow> real \<Rightarrow> int \<Rightarrow> real" where
  "area_sum R w n =
     (\<Sum>j<nat n. \<Sum>i<nat n.
        area_integrand R (samples 0 (2 * pi) n ! i) (samples (- w / 2) (w / 2) n ! j))
     * (samples 0 (2 * pi) n ! 1 - samples 0 (2 * pi) n ! 0)
     * (samples (- w / 2) (w / 2) n ! 1 - samples (- w / 2) (w / 2) n ! 0)"

definition edge_sum :: "real \<Rightarrow> real \<Rightarrow> int \<Rightarrow> real" where
  "edge_sum R w n =
     (\<Sum>i<nat n. edge_integrand R w (samples 0 (2 * pi) n ! i))
     * (samples 0 (2 * pi) n ! 1 - samples 0 (2 * pi) n ! 0)"

lemma linspace_samples:
  assumes "2 \<le> n"
  shows "linspace a b n = Inr (samples a b n)"
proof -
  let ?y = "map (\<lambda>i. real i * ((b - a) / real_of_int (n - 1)) + a) [0..<nat n]"
  have "?y[nat n - 1 := b] = samples a b n"
  proof (rule nth_equalityI)
    show "length (?y[nat n - 1 := b]) = length (samples a b n)"
      by (simp add: samples_def)
  next
    fix i assume "i < length (?y[nat n - 1 := b])"
    then have i: "i < nat n" by simp
    show "?y[nat n - 1 := b] ! i = samples a b n ! i"
    proof (cases "i = nat n - 1")
      case True
      have "real (nat n - 1) = real_of_int n - 1"
        using assms by (simp add: of_nat_diff)
      moreover have "real_of_int n - 1 \<noteq> 0" using assms by simp
      ultimately show ?thesis
        using i True by (simp add: samples_def)
    next
      case False
      then show ?thesis
        using i by (simp add: samples_def algebra_simps)
    qed
  qed
  then show ?thesis
    using assms by (simp add: linspace_def Let_def)
qed

lemma length_samples [simp]: "length (samples a b n) = nat n"
  by (simp add: samples_def)

lemma nth_samples:
  "i < nat n \<Longrightarrow> samples a b n ! i = a + real i * ((b - a) / (real_of_int n - 1))"
  by (simp add: samples_def)

lemma nth_samples_0: "2 \<le> n \<Longrightarrow> samples a b n ! 0 = a"
  by (simp add: nth_samples)

lemma nth_samples_last: "2 \<le> n \<Longrightarrow> samples a b n ! (nat n - 1) = b"
proof -
  assume n: "2 \<le> n"
  then have "real (nat n - 1) = real_of_int n - 1"
    by (simp add: of_nat_diff)
  moreover have "real_of_int n - 1 \<noteq> 0" using n by simp
  ultimately show ?thesis
    using n by (simp add: nth_samples)
qed

lemma nth_samples_step:
  "Suc i < nat n \<Longrightarrow> samples a b n ! Suc i - samples a b n ! i = (b - a) / (real_of_int n - 1)"
  by (simp add: nth_samples algebra_simps add_divide_distrib diff_divide_distrib)

text \<open>On the two grids of \<open>meshgrid\<close> an elementwise expression is a nested map.\<close>

lemma map2_replicate_right:
  "map2 f xs (replicate (length xs) y) = map (\<lambda>x. f x y) xs"
  by (induction xs) simp_all

lemma elementwise_meshgrid:
  assumes "length ys = r" and "length xs = c"
  shows "elementwise f (replicate r xs) (map (replicate c) ys)
           = map (\<lambda>y. map (\<lambda>x. f x y) xs) ys"
proof -
  have "map2 (map2 f) (replicate (length ys) xs) (map (replicate (length xs)) ys)
          = map (\<lambda>y. map (\<lambda>x. f x y) xs) ys"
    by (induction ys) (simp_all add: map2_replicate_right)
  then show ?thesis
    using assms by (simp add: elementwise_def)
qed

lemma np_sum_rows: "np_sum A = sum_list (map sum_list A)"
  unfolding np_sum_def by (induction A) simp_all

lemma np_sum_nested:
  "np_sum (map (\<lambda>y. map (\<lambda>x. f x y) xs) ys) = (\<Sum>y\<leftarrow>ys. \<Sum>x\<leftarrow>xs. f x y)"
  by (simp add: np_sum_rows comp_def)

lemma sum_list_samples:
  "(\<Sum>x\<leftarrow>samples a b n. f x) = (\<Sum>i<nat n. f (samples a b n ! i))"
proof -
  have "(\<Sum>x\<leftarrow>samples a b n. f x) = (\<Sum>i = 0..<length (samples a b n). f (samples a b n ! i))"
    by (simp add: sum_list_sum_nth)
  then show ?thesis
    by (simp add: lessThan_atLeast0)
qed

lemma init_built:
  assumes "2 \<le> n"
  shows "init R w n = Inr (built R w n)"
proof -
  let ?us = "samples 0 (2 * pi) n" and ?vs = "samples (- w / 2) (w / 2) n"
  have mg: "meshgrid ?us ?vs = (replicate (nat n) ?us, map (\<lambda>y. replicate (nat n) y) ?vs)"
    by (simp add: meshgrid_def)
  show ?thesis
    unfolding init_def linspace_samples [OF assms] sum.case mg prod.case
    by (simp add: generate_mesh_def built_def Let_def elementwise_meshgrid)
qed

lemma getitem_samples:
  "i < nat n \<Longrightarrow> getitem (samples a b n) i = Inr (samples a b n ! i)"
  by (simp add: getitem_def)

lemma compute_surface_area_built:
  assumes "2 \<le> n"
  shows "compute_surface_area (built R w n) =
     (Inr ((\<Sum>j<nat n. \<Sum>i<nat n.
              area_integrand R (samples 0 (2 * pi) n ! i) (samples (- w / 2) (w / 2) n ! j))
           * (samples 0 (2 * pi) n ! 1 - samples 0 (2 * pi) n ! 0)
           * (samples (- w / 2) (w / 2) n ! 1 - samples (- w / 2) (w / 2) n ! 0)),
      built R w n)"
proof -
  let ?us = "samples 0 (2 * pi) n" and ?vs = "samples (- w / 2) (w / 2) n"
  have g: "getitem ?us 1 = Inr (?us ! 1)" "getitem ?us 0 = Inr (?us ! 0)"
          "getitem ?vs 1 = Inr (?vs ! 1)" "getitem ?vs 0 = Inr (?vs ! 0)"
    using assms by (simp_all add: getitem_def)
  have s: "np_sum (elementwise (area_integrand R) (replicate (nat n) ?us) (map (replicate (nat n)) ?vs))
             = (\<Sum>j<nat n. \<Sum>i<nat n. area_integrand R (?us ! i) (?vs ! j))"
    by (simp add: elementwise_meshgrid np_sum_nested sum_list_samples)
  have f: "self_u (built R w n) = ?us" "self_v (built R w n) = ?vs"
          "self_U (built R w n) = replicate (nat n) ?us"
          "self_V (built R w n) = map (replicate (nat n)) ?vs"
          "self_R (built R w n) = R"
    by (simp_all add: built_def Let_def)
  show ?thesis
    unfolding compute_surface_area_def Let_def f g sum.case s ..
qed

lemma compute_edge_length_built:
  assumes "2 \<le> n"
  shows "compute_edge_length (built R w n) =
     (Inr ((\<Sum>i<nat n. edge_integrand R w (samples 0 (2 * pi) n ! i))
           * (samples 0 (2 * pi) n ! 1 - samples 0 (2 * pi) n ! 0)),
      built R w n)"
proof -
  let ?us = "samples 0 (2 * pi) n"
  have g: "getitem ?us 1 = Inr (?us ! 1)" "getitem ?us 0 = Inr (?us ! 0)"
    using assms by (simp_all add: getitem_def)
  have s: "sum_list (map (edge_integrand R w) ?us) = (\<Sum>i<nat n. edge_integrand R w (?us ! i))"
    by (rule sum_list_samples)
  have f: "self_u (built R w n) = ?us" "self_R (built R w n) = R" "self_w (built R w n) = w"
    by (simp_all add: built_def Let_def)
  show ?thesis
    unfolding compute_edge_length_def Let_def f g sum.case s ..
qed

text \<open>What \<open>__init__\<close> does for any \<open>n \<ge> 0\<close>.\<close>

lemma linspace_length:
  "linspace a b n = Inr ys \<Longrightarrow> length ys = nat n"
  by (auto simp: linspace_def Let_def split: if_splits)

lemma linspace_nonneg:
  "0 \<le> n \<Longrightarrow> \<exists>ys. linspace a b n = Inr ys"
  by (simp add: linspace_def Let_def)

lemma linspace_neg:
  "n < 0 \<Longrightarrow> linspace a b n = Inl ValueError"
  by (simp add: linspace_def)

lemma init_nonneg:
  assumes "0 \<le> n"
  shows "\<exists>m. init R w n = Inr m \<and> length (self_u m) = nat n"
proof -
  obtain us where us: "linspace 0 (2 * pi) n = Inr us"
    using linspace_nonneg [OF assms] by blast
  obtain vs where vs: "linspace (- w / 2) (w / 2) n = Inr vs"
    using linspace_nonneg [OF assms] by blast
  have "length us = nat n"
    using us by (rule linspace_length)
  then show ?thesis
    unfolding init_def us vs sum.case
    by (simp add: generate_mesh_def Let_def split: prod.split)
qed

lemma init_neg: "n < 0 \<Longrightarrow> init R w n = Inl ValueError"
  by (simp add: init_def linspace_neg)

lemma short_u_area:
  "length (self_u m) < 2 \<Longrightarrow> compute_surface_area m = (Inl IndexError, m)"
  by (simp add: compute_surface_area_def getitem_def Let_def)

lemma short_u_edge:
  "length (self_u m) < 2 \<Longrightarrow> compute_edge_length m = (Inl IndexError, m)"
  by (simp add: compute_edge_length_def getitem_def Let_def)

lemma snd_compute_surface_area: "snd (compute_surface_area m) = m"
  by (simp add: compute_surface_area_def Let_def split: sum.split)

lemma snd_compute_edge_length: "snd (compute_edge_length m) = m"
  by (simp add: compute_edge_length_def Let_def split: sum.split)

lemma snd_call: "snd (call q m) = m"
  by (cases q) (simp_all add: snd_compute_surface_area snd_compute_edge_length)

text \<open>Entries of the grids of the constructed object.\<close>

lemma nth_nested_map:
  "j < length ys \<Longrightarrow> i < length xs \<Longrightarrow> map (\<lambda>y. map (\<lambda>x. f x y) xs) ys ! j ! i = f (xs ! i) (ys ! j)"
  by simp

lemma shape_nested_map:
  "has_shape (map (\<lambda>y. map (\<lambda>x. f x y) xs) ys) (length ys) (length xs)"
  by (simp add: has_shape_def list_all_iff)

lemma samples_reflect:
  assumes "2 \<le> n" and "j < nat n"
  shows "samples (- w / 2) (w / 2) n ! (nat n - 1 - j) = - (samples (- w / 2) (w / 2) n ! j)"
proof -
  have r: "real (nat n - 1 - j) = real_of_int n - 1 - real j"
    using assms by (simp add: of_nat_diff)
  have nz: "real_of_int n - 1 \<noteq> 0"
    using assms by simp
  have "nat n - 1 - j < nat n"
    using assms by simp
  then have "samples (- w / 2) (w / 2) n ! (nat n - 1 - j)
               = - w / 2 + real (nat n - 1 - j) * ((w / 2 - - w / 2) / (real_of_int n - 1))"
    by (rule nth_samples)
  also have "\<dots> = - w / 2 + (w - real j * (w / (real_of_int n - 1)))"
    unfolding r using nz by (simp add: field_simps)
  also have "\<dots> = - (- w / 2 + real j * ((w / 2 - - w / 2) / (real_of_int n - 1)))"
    by simp
  also have "\<dots> = - (samples (- w / 2) (w / 2) n ! j)"
    using nth_samples [OF assms(2), of "- w / 2" "w / 2"] by simp
  finally show ?thesis .
qed

lemma mesh_at_two_pi:
  "mesh_x R (2 * pi) v = mesh_x R 0 (- v)"
  "mesh_y R (2 * pi) v = mesh_y R 0 (- v)"
  "mesh_z (2 * pi) v = mesh_z 0 (- v)"
  by (simp_all add: mesh_x_def mesh_y_def mesh_z_def)

text \<open>The source's derivative expressions are the derivatives of the position function.\<close>

lemma partial_u_derivative: "derivative_in_u R u v (partial_u R u v)"
  unfolding derivative_in_u_def partial_u_def mesh_x_def mesh_y_def mesh_z_def fst_conv snd_conv
  by (intro conjI) ((rule derivative_eq_intros refl | simp add: algebra_simps)+)

lemma partial_v_derivative: "derivative_in_v R u v (partial_v u)"
  unfolding derivative_in_v_def partial_v_def mesh_x_def mesh_y_def mesh_z_def fst_conv snd_conv
  by (intro conjI) ((rule derivative_eq_intros refl | simp add: algebra_simps)+)

lemma edge_derivative_derivative: "derivative_in_u R u (w / 2) (edge_derivative R w u)"
  unfolding derivative_in_u_def edge_derivative_def mesh_x_def mesh_y_def mesh_z_def fst_conv snd_conv
  by (intro conjI) ((rule derivative_eq_intros refl | simp add: algebra_simps)+)

lemma area_integrand_cross:
  "area_integrand R u v = norm3 (cross3 (partial_u R u v) (partial_v u))"
  by (simp add: area_integrand_def Let_def norm3_def cross3_def partial_u_def partial_v_def)

lemma edge_integrand_norm:
  "edge_integrand R w u = norm3 (edge_derivative R w u)"
  by (simp add: edge_integrand_def Let_def norm3_def edge_derivative_def)

lemma fields_built:
  "self_u (built R w n) = samples 0 (2 * pi) n"
  "self_v (built R w n) = samples (- w / 2) (w / 2) n"
  by (simp_all add: built_def Let_def)

text \<open>The results of the two entry-point calls, and how they scale.\<close>

lemma surface_area_closed: "2 \<le> n \<Longrightarrow> surface_area R w n = Inr (area_sum R w n)"
  by (simp add: surface_area_def init_built compute_surface_area_built area_sum_def)

lemma edge_length_closed: "2 \<le> n \<Longrightarrow> edge_length R w n = Inr (edge_sum R w n)"
  by (simp add: edge_length_def init_built compute_edge_length_built edge_sum_def)

lemma samples_scale:
  assumes "j < nat n"
  shows "samples (- (k * w) / 2) ((k * w) / 2) n ! j = k * (samples (- w / 2) (w / 2) n ! j)"
  unfolding nth_samples [OF assms] by (simp add: algebra_simps)

lemma area_integrand_scale:
  assumes "0 < k"
  shows "area_integrand (k * R) u (k * v) = k * area_integrand R u v"
proof -
  have "area_integrand (k * R) u (k * v) = sqrt (k\<^sup>2 * (area_integrand R u v)\<^sup>2)"
    unfolding area_integrand_def Let_def
    apply (subst real_sqrt_pow2)
     apply (intro add_nonneg_nonneg zero_le_power2)
    apply (rule arg_cong [where f = sqrt])
    apply (simp add: algebra_simps power2_eq_square)
    done
  also have "\<dots> = k * area_integrand R u v"
    using assms by (simp add: real_sqrt_mult area_integrand_def Let_def)
  finally show ?thesis .
qed

lemma edge_integrand_scale:
  assumes "0 < k"
  shows "edge_integrand (k * R) (k * w) u = k * edge_integrand R w u"
proof -
  have "edge_integrand (k * R) (k * w) u = sqrt (k\<^sup>2 * (edge_integrand R w u)\<^sup>2)"
    unfolding edge_integrand_def Let_def
    apply (subst real_sqrt_pow2)
     apply (intro add_nonneg_nonneg zero_le_power2)
    apply (rule arg_cong [where f = sqrt])
    apply (simp add: algebra_simps power2_eq_square)
    done
  also have "\<dots> = k * edge_integrand R w u"
    using assms by (simp add: real_sqrt_mult edge_integrand_def Let_def)
  finally show ?thesis .
qed

lemma area_sum_scale:
  assumes "0 < k" and "2 \<le> n"
  shows "area_sum (k * R) (k * w) n = k\<^sup>2 * area_sum R w n"
proof -
  let ?us = "samples 0 (2 * pi) n"
  let ?vs = "samples (- w / 2) (w / 2) n" and ?ws = "samples (- (k * w) / 2) ((k * w) / 2) n"
  have inner: "(\<Sum>j<nat n. \<Sum>i<nat n. area_integrand (k * R) (?us ! i) (?ws ! j))
             = k * (\<Sum>j<nat n. \<Sum>i<nat n. area_integrand R (?us ! i) (?vs ! j))"
  proof -
    have "(\<Sum>j<nat n. \<Sum>i<nat n. area_integrand (k * R) (?us ! i) (?ws ! j))
        = (\<Sum>j<nat n. \<Sum>i<nat n. k * area_integrand R (?us ! i) (?vs ! j))"
    proof (intro sum.cong refl)
      fix j i assume "j \<in> {..<nat n}"
      then have "?ws ! j = k * (?vs ! j)"
        using samples_scale [of j n k w] by simp
      then show "area_integrand (k * R) (?us ! i) (?ws ! j)
                   = k * area_integrand R (?us ! i) (?vs ! j)"
        using area_integrand_scale [OF assms(1)] by simp
    qed
    then show ?thesis
      by (simp add: sum_distrib_left)
  qed
  have dv: "?ws ! 1 - ?ws ! 0 = k * (?vs ! 1 - ?vs ! 0)"
    using assms(2) samples_scale [of 1 n k w] samples_scale [of 0 n k w]
    by (simp add: right_diff_distrib)
  show ?thesis
    unfolding area_sum_def inner dv by (simp add: power2_eq_square)
qed

lemma edge_sum_scale:
  assumes "0 < k"
  shows "edge_sum (k * R) (k * w) n = k * edge_sum R w n"
  unfolding edge_sum_def edge_integrand_scale [OF assms]
  by (simp add: sum_distrib_left)

text \<open>Both results are continuous in the width; their values at width \<open>0\<close>.\<close>

lemma isCont_area_integrand_v:
  "isCont (\<lambda>v. area_integrand R u v) b"
  unfolding area_integrand_def [abs_def] Let_def
  by (intro continuous_intros) simp_all

lemma isCont_area_integrand:
  assumes "isCont g a"
  shows "isCont (\<lambda>w. area_integrand R u (g w)) a"
  by (rule isCont_o2 [where f = g and g = "area_integrand R u", OF assms isCont_area_integrand_v])

lemma isCont_edge_integrand:
  "isCont (\<lambda>w. edge_integrand R w u) a"
  unfolding edge_integrand_def Let_def
  by (intro continuous_intros) simp_all

lemma isCont_width_sample:
  assumes "j < nat n" and "2 \<le> n"
  shows "isCont (\<lambda>w. samples (- w / 2) (w / 2) n ! j) a"
  unfolding nth_samples [OF assms(1)]
  using assms(2) by (intro continuous_intros) simp_all

lemma isCont_area_sum:
  assumes "2 \<le> n"
  shows "isCont (\<lambda>w. area_sum R w n) a"
proof -
  have "0 < nat n" "1 < nat n" using assms by simp_all
  then show ?thesis
    unfolding area_sum_def
    using assms by (intro continuous_intros isCont_area_integrand isCont_width_sample) simp_all
qed

lemma isCont_edge_sum: "isCont (\<lambda>w. edge_sum R w n) a"
  unfolding edge_sum_def
  by (intro continuous_intros isCont_edge_integrand)

lemma area_sum_zero_width: "2 \<le> n \<Longrightarrow> area_sum R 0 n = 0"
  by (simp add: area_sum_def nth_samples)

lemma edge_integrand_zero_width: "0 < R \<Longrightarrow> edge_integrand R 0 u = R"
proof -
  assume R: "0 < R"
  have "(R * sin u)\<^sup>2 + (R * cos u)\<^sup>2 = R\<^sup>2 * ((sin u)\<^sup>2 + (cos u)\<^sup>2)"
    unfolding power_mult_distrib distrib_left ..
  then have "(R * sin u)\<^sup>2 + (R * cos u)\<^sup>2 = R\<^sup>2"
    by simp
  then show ?thesis
    using R by (simp add: edge_integrand_def Let_def)
qed

lemma edge_sum_zero_width:
  assumes "0 < R" and "2 \<le> n"
  shows "edge_sum R 0 n = 2 * pi * R * real_of_int n / (real_of_int n - 1)"
proof -
  have "samples 0 (2 * pi) n ! Suc 0 - samples 0 (2 * pi) n ! 0 = (2 * pi - 0) / (real_of_int n - 1)"
    using assms(2) by (intro nth_samples_step) simp
  then have du: "samples 0 (2 * pi) n ! 1 - samples 0 (2 * pi) n ! 0 = 2 * pi / (real_of_int n - 1)"
    by simp
  have "real (nat n) = real_of_int n"
    using assms(2) by simp
  then show ?thesis
    unfolding edge_sum_def du edge_integrand_zero_width [OF assms(1)]
    by simp
qed

lemma area_sum_tendsto:
  assumes "2 \<le> n"
  shows "((\<lambda>w. area_sum R w n) \<longlongrightarrow> 0) (at_right 0)"
proof -
  have "(\<lambda>w. area_sum R w n) \<midarrow>0\<rightarrow> area_sum R 0 n"
    using isCont_area_sum [OF assms] by (simp add: isCont_def)
  then have "(\<lambda>w. area_sum R w n) \<midarrow>0\<rightarrow> 0"
    by (simp add: area_sum_zero_width [OF assms])
  then show ?thesis
    by (rule tendsto_within_subset) simp
qed

lemma edge_sum_tendsto:
  assumes "0 < R" and "2 \<le> n"
  shows "((\<lambda>w. edge_sum R w n) \<longlongrightarrow> 2 * pi * R * real_of_int n / (real_of_int n - 1)) (at_right 0)"
proof -
  have "(\<lambda>w. edge_sum R w n) \<midarrow>0\<rightarrow> edge_sum R 0 n"
    using isCont_edge_sum by (simp add: isCont_def)
  then have "(\<lambda>w. edge_sum R w n) \<midarrow>0\<rightarrow> 2 * pi * R * real_of_int n / (real_of_int n - 1)"
    by (simp add: edge_sum_zero_width [OF assms])
  then show ?thesis
    by (rule tendsto_within_subset) simp
qed

lemma area_of_width_eq: "2 \<le> n \<Longrightarrow> area_of_width R n = (\<lambda>w. area_sum R w n)"
  by (rule ext) (simp add: area_of_width_def surface_area_closed)

lemma length_of_width_eq: "2 \<le> n \<Longrightarrow> length_of_width R n = (\<lambda>w. edge_sum R w n)"
  by (rule ext) (simp add: length_of_width_def edge_length_closed)

section \<open>The claims\<close>

text \<open>
  C9. \<open>compute_surface_area\<close> and \<open>compute_edge_length\<close> neither change the object nor
  depend on earlier calls: whatever sequence of the two methods is called on an object,
  the object is afterwards the one it was (so none of \<open>R\<close>, \<open>w\<close>, \<open>n\<close>, \<open>u\<close>, \<open>v\<close>, \<open>U\<close>,
  \<open>V\<close>, \<open>mesh\<close> has changed), and every call in the sequence returns what the same method
  returns when called first on the object.
\<close>

theorem queries_pure:
  "run_calls qs m = (map (\<lambda>q. fst (call q m)) qs, m)"
proof (induction qs)
  case Nil
  show ?case by simp
next
  case (Cons q qs)
  obtain r where r: "call q m = (r, m)"
    using snd_call [of q m] by (metis prod.collapse)
  show ?case
    using r Cons.IH by simp
qed

text \<open>
  C10. The constructor validates nothing. For every real \<open>R\<close> and \<open>w\<close> and every integer
  \<open>n \<ge> 0\<close> it returns an object, never an error; when moreover \<open>n < 2\<close>, reading \<open>u[1]\<close>
  on that object is out of range, and both \<open>compute_surface_area\<close> and
  \<open>compute_edge_length\<close> fail on it with \<open>IndexError\<close>.
\<close>

theorem init_no_validation:
  assumes "0 \<le> n"
  shows "\<exists>m. init R w n = Inr m \<and>
           (n < 2 \<longrightarrow> getitem (self_u m) 1 = Inl IndexError
                    \<and> fst (compute_surface_area m) = Inl IndexError
                    \<and> fst (compute_edge_length m) = Inl IndexError)"
proof -
  obtain m where m: "init R w n = Inr m" "length (self_u m) = nat n"
    using init_nonneg [OF assms] by blast
  have "n < 2 \<Longrightarrow> length (self_u m) < 2"
    using m(2) by simp
  then show ?thesis
    using m(1) by (auto simp: short_u_area short_u_edge getitem_def)
qed

theorem init_no_validation_witness:
  "\<exists>m. init 1 (1 / 2) 1 = Inr m \<and> getitem (self_u m) 1 = Inl IndexError
        \<and> fst (compute_surface_area m) = Inl IndexError
        \<and> fst (compute_edge_length m) = Inl IndexError"
  using init_no_validation [of 1 1 "1 / 2"] by simp

text \<open>
  C4 (as the code has it). A resolution \<open>n < 2\<close> is never rejected with
  \<open>InvalidParameter\<close>. For \<open>n < 0\<close> construction fails with the \<open>ValueError\<close> of
  \<open>np.linspace\<close>. For \<open>n = 0\<close> and \<open>n = 1\<close> construction completes, and the failure
  comes with the first call of \<open>compute_surface_area\<close> or \<open>compute_edge_length\<close>, as an
  \<open>IndexError\<close>.
\<close>

theorem small_n_not_rejected:
  assumes "n < 2"
  shows "init R w n \<noteq> Inl InvalidParameter
       \<and> (n < 0 \<longrightarrow> init R w n = Inl ValueError)
       \<and> (0 \<le> n \<longrightarrow> (\<exists>m. init R w n = Inr m
                           \<and> fst (compute_surface_area m) = Inl IndexError
                           \<and> fst (compute_edge_length m) = Inl IndexError))"
proof (cases "n < 0")
  case True
  then show ?thesis by (simp add: init_neg)
next
  case False
  then obtain m where m: "init R w n = Inr m" "length (self_u m) = nat n"
    using init_nonneg [of n R w] by auto
  have "length (self_u m) < 2"
    using m(2) assms by simp
  then show ?thesis
    using False m(1) by (simp add: short_u_area short_u_edge)
qed

theorem small_n_not_rejected_witness:
  "init 1 (1 / 2) (- 1) = Inl ValueError
   \<and> (\<exists>m. init 1 (1 / 2) 0 = Inr m \<and> fst (compute_surface_area m) = Inl IndexError
                                     \<and> fst (compute_edge_length m) = Inl IndexError)"
  using small_n_not_rejected [of "- 1" 1 "1 / 2"] small_n_not_rejected [of 0 1 "1 / 2"]
  by simp

text \<open>
  The claim C4 itself fails: with \<open>R = 1\<close>, \<open>w = 1/2\<close> and \<open>n = 1\<close> the constructor
  returns a complete object with one sample in each direction.
\<close>

theorem init_n1_completes:
  "init 1 (1 / 2) 1 =
     Inr \<lparr>self_R = 1, self_w = 1 / 2, self_n = 1, self_u = [0], self_v = [- 1 / 4],
          self_U = [[0]], self_V = [[- 1 / 4]],
          self_mesh = Some ([[3 / 4]], [[0]], [[0]])\<rparr>"
  by (simp add: init_def linspace_def meshgrid_def generate_mesh_def elementwise_def
      mesh_x_def mesh_y_def mesh_z_def Let_def)

text \<open>
  C8. For \<open>n \<ge> 2\<close> the constructor returns an object whose sequences \<open>u\<close> and \<open>v\<close> have
  length \<open>n\<close>, with \<open>u[0] = 0\<close>, \<open>u[n-1] = 2\<pi>\<close>, consecutive samples of \<open>u\<close> exactly
  \<open>2\<pi>/(n-1)\<close> apart, \<open>v[0] = -w/2\<close> and \<open>v[n-1] = w/2\<close>; and whose grids \<open>U\<close>, \<open>V\<close>, \<open>X\<close>,
  \<open>Y\<close>, \<open>Z\<close> all have \<open>n\<close> rows of \<open>n\<close> entries.
\<close>

theorem grid_invariants:
  assumes "2 \<le> n"
  shows "\<exists>m X Y Z. init R w n = Inr m \<and> self_mesh m = Some (X, Y, Z)
       \<and> length (self_u m) = nat n \<and> length (self_v m) = nat n
       \<and> self_u m ! 0 = 0 \<and> self_u m ! (nat n - 1) = 2 * pi
       \<and> (\<forall>i. Suc i < nat n \<longrightarrow>
             self_u m ! Suc i - self_u m ! i = 2 * pi / (real_of_int n - 1))
       \<and> self_v m ! 0 = - w / 2 \<and> self_v m ! (nat n - 1) = w / 2
       \<and> has_shape (self_U m) (nat n) (nat n) \<and> has_shape (self_V m) (nat n) (nat n)
       \<and> has_shape X (nat n) (nat n) \<and> has_shape Y (nat n) (nat n)
       \<and> has_shape Z (nat n) (nat n)"
proof -
  let ?us = "samples 0 (2 * pi) n" and ?vs = "samples (- w / 2) (w / 2) n"
  let ?m = "built R w n"
  have f: "self_u ?m = ?us" "self_v ?m = ?vs"
    by (simp_all add: built_def Let_def)
  have step: "\<forall>i. Suc i < nat n \<longrightarrow> ?us ! Suc i - ?us ! i = 2 * pi / (real_of_int n - 1)"
    using nth_samples_step [of _ n 0 "2 * pi"] by simp
  have ends: "?us ! 0 = 0" "?us ! (nat n - 1) = 2 * pi"
             "?vs ! 0 = - w / 2" "?vs ! (nat n - 1) = w / 2"
    using nth_samples_0 [OF assms] nth_samples_last [OF assms] by blast+
  have shapes: "has_shape (self_U ?m) (nat n) (nat n)" "has_shape (self_V ?m) (nat n) (nat n)"
    by (simp_all add: built_def Let_def has_shape_def list_all_iff)
  have mesh: "self_mesh ?m = Some (map (\<lambda>y. map (\<lambda>x. mesh_x R x y) ?us) ?vs,
                                   map (\<lambda>y. map (\<lambda>x. mesh_y R x y) ?us) ?vs,
                                   map (\<lambda>y. map (\<lambda>x. mesh_z x y) ?us) ?vs)"
    by (simp add: built_def Let_def)
  have mshape: "has_shape (map (\<lambda>y. map (\<lambda>x. g x y) ?us) ?vs) (nat n) (nat n)" for g
    by (simp add: has_shape_def list_all_iff)
  show ?thesis
    unfolding init_built [OF assms]
    using f step ends shapes mesh mshape by (intro exI conjI) (rule refl | assumption | simp)+
qed

theorem grid_invariants_witness:
  "\<exists>m X Y Z. init 4 (2 / 5) 3 = Inr m \<and> self_mesh m = Some (X, Y, Z)
     \<and> length (self_u m) = 3 \<and> length (self_v m) = 3
     \<and> self_u m ! 0 = 0 \<and> self_u m ! 2 = 2 * pi
     \<and> self_u m ! 1 - self_u m ! 0 = pi \<and> self_u m ! 2 - self_u m ! 1 = pi
     \<and> self_v m ! 0 = - 1 / 5 \<and> self_v m ! 2 = 1 / 5
     \<and> has_shape (self_U m) 3 3 \<and> has_shape (self_V m) 3 3
     \<and> has_shape X 3 3 \<and> has_shape Y 3 3 \<and> has_shape Z 3 3"
  using grid_invariants [of 3 4 "2 / 5"]
  by (auto simp: numeral_2_eq_2 numeral_3_eq_3 All_less_Suc)

text \<open>
  C3. For \<open>n \<ge> 2\<close> the stored mesh \<open>(X, Y, Z)\<close> consists of three grids of \<open>n\<close> rows of
  \<open>n\<close> entries. The cell in row \<open>j\<close> and column \<open>i\<close> belongs to the pair \<open>(u\<^sub>i, v\<^sub>j)\<close>
  (there \<open>U\<close> holds \<open>u\<^sub>i\<close> and \<open>V\<close> holds \<open>v\<^sub>j\<close>), so every pair has exactly one cell, and
  in that cell \<open>X = (R + v\<^sub>j cos(u\<^sub>i/2)) cos u\<^sub>i\<close>, \<open>Y = (R + v\<^sub>j cos(u\<^sub>i/2)) sin u\<^sub>i\<close> and
  \<open>Z = v\<^sub>j sin(u\<^sub>i/2)\<close>.
\<close>

theorem mesh_pointwise:
  assumes "2 \<le> n"
  shows "\<exists>m X Y Z. init R w n = Inr m \<and> self_mesh m = Some (X, Y, Z)
       \<and> has_shape X (nat n) (nat n) \<and> has_shape Y (nat n) (nat n)
       \<and> has_shape Z (nat n) (nat n)
       \<and> (\<forall>i<nat n. \<forall>j<nat n.
             self_U m ! j ! i = self_u m ! i \<and> self_V m ! j ! i = self_v m ! j
           \<and> X ! j ! i = (R + self_v m ! j * cos (self_u m ! i / 2)) * cos (self_u m ! i)
           \<and> Y ! j ! i = (R + self_v m ! j * cos (self_u m ! i / 2)) * sin (self_u m ! i)
           \<and> Z ! j ! i = self_v m ! j * sin (self_u m ! i / 2))"
proof -
  let ?us = "samples 0 (2 * pi) n" and ?vs = "samples (- w / 2) (w / 2) n"
  let ?m = "built R w n"
  let ?X = "map (\<lambda>y. map (\<lambda>x. mesh_x R x y) ?us) ?vs"
  let ?Y = "map (\<lambda>y. map (\<lambda>x. mesh_y R x y) ?us) ?vs"
  let ?Z = "map (\<lambda>y. map (\<lambda>x. mesh_z x y) ?us) ?vs"
  have f: "self_u ?m = ?us" "self_v ?m = ?vs" "self_mesh ?m = Some (?X, ?Y, ?Z)"
          "self_U ?m = replicate (nat n) ?us" "self_V ?m = map (replicate (nat n)) ?vs"
    by (simp_all add: built_def Let_def)
  have shapes: "has_shape ?X (nat n) (nat n)" "has_shape ?Y (nat n) (nat n)"
               "has_shape ?Z (nat n) (nat n)"
    using shape_nested_map [of _ ?us ?vs] by simp_all
  have cells: "\<forall>i<nat n. \<forall>j<nat n.
             self_U ?m ! j ! i = self_u ?m ! i \<and> self_V ?m ! j ! i = self_v ?m ! j
           \<and> ?X ! j ! i = (R + self_v ?m ! j * cos (self_u ?m ! i / 2)) * cos (self_u ?m ! i)
           \<and> ?Y ! j ! i = (R + self_v ?m ! j * cos (self_u ?m ! i / 2)) * sin (self_u ?m ! i)
           \<and> ?Z ! j ! i = self_v ?m ! j * sin (self_u ?m ! i / 2)"
    unfolding f by (simp add: mesh_x_def mesh_y_def mesh_z_def)
  show ?thesis
    unfolding init_built [OF assms]
    using f(3) shapes cells by blast
qed

theorem mesh_pointwise_witness:
  "\<exists>m X Y Z. init 4 (2 / 5) 2 = Inr m \<and> self_mesh m = Some (X, Y, Z)
     \<and> has_shape X 2 2
     \<and> self_U m ! 0 ! 1 = self_u m ! 1 \<and> self_V m ! 0 ! 1 = self_v m ! 0
     \<and> X ! 0 ! 1 = (4 + self_v m ! 0 * cos (self_u m ! 1 / 2)) * cos (self_u m ! 1)
     \<and> Z ! 1 ! 0 = self_v m ! 1 * sin (self_u m ! 0 / 2)"
  using mesh_pointwise [of 2 4 "2 / 5"]
  by (auto simp: numeral_2_eq_2 All_less_Suc)

text \<open>
  C5. For \<open>n \<ge> 2\<close> and every width sample \<open>v\<^sub>j\<close>: the sample \<open>-v\<^sub>j\<close> is itself on the
  grid, as \<open>v\<^sub>n\<^sub>-\<^sub>1\<^sub>-\<^sub>j\<close>; the mesh point in the last angular column (\<open>u = 2\<pi>\<close>) of row \<open>j\<close>
  is the mesh point in the first angular column (\<open>u = 0\<close>) of row \<open>n-1-j\<close>; and it is the
  position function at \<open>(0, -v\<^sub>j)\<close>.
\<close>

theorem half_twist_closure:
  assumes "2 \<le> n"
  shows "\<exists>m X Y Z. init R w n = Inr m \<and> self_mesh m = Some (X, Y, Z)
       \<and> self_u m ! 0 = 0 \<and> self_u m ! (nat n - 1) = 2 * pi
       \<and> (\<forall>j<nat n.
             self_v m ! (nat n - 1 - j) = - (self_v m ! j)
           \<and> X ! j ! (nat n - 1) = X ! (nat n - 1 - j) ! 0
           \<and> Y ! j ! (nat n - 1) = Y ! (nat n - 1 - j) ! 0
           \<and> Z ! j ! (nat n - 1) = Z ! (nat n - 1 - j) ! 0
           \<and> X ! j ! (nat n - 1) = (R + (- (self_v m ! j)) * cos (0 / 2)) * cos 0
           \<and> Y ! j ! (nat n - 1) = (R + (- (self_v m ! j)) * cos (0 / 2)) * sin 0
           \<and> Z ! j ! (nat n - 1) = (- (self_v m ! j)) * sin (0 / 2))"
proof -
  let ?us = "samples 0 (2 * pi) n" and ?vs = "samples (- w / 2) (w / 2) n"
  let ?m = "built R w n"
  let ?X = "map (\<lambda>y. map (\<lambda>x. mesh_x R x y) ?us) ?vs"
  let ?Y = "map (\<lambda>y. map (\<lambda>x. mesh_y R x y) ?us) ?vs"
  let ?Z = "map (\<lambda>y. map (\<lambda>x. mesh_z x y) ?us) ?vs"
  let ?l = "nat n - 1"
  have f: "self_u ?m = ?us" "self_v ?m = ?vs" "self_mesh ?m = Some (?X, ?Y, ?Z)"
    by (simp_all add: built_def Let_def)
  have l: "?l < nat n" "0 < nat n"
    using assms by simp_all
  have ends: "?us ! 0 = 0" "?us ! ?l = 2 * pi"
    using nth_samples_0 [OF assms] nth_samples_last [OF assms] by blast+
  have rows: "?vs ! (?l - j) = - (?vs ! j)
           \<and> ?X ! j ! ?l = ?X ! (?l - j) ! 0
           \<and> ?Y ! j ! ?l = ?Y ! (?l - j) ! 0
           \<and> ?Z ! j ! ?l = ?Z ! (?l - j) ! 0
           \<and> ?X ! j ! ?l = (R + (- (?vs ! j)) * cos (0 / 2)) * cos 0
           \<and> ?Y ! j ! ?l = (R + (- (?vs ! j)) * cos (0 / 2)) * sin 0
           \<and> ?Z ! j ! ?l = (- (?vs ! j)) * sin (0 / 2)" if j: "j < nat n" for j
  proof -
    have j': "?l - j < nat n" using j by simp
    have rf: "?vs ! (?l - j) = - (?vs ! j)"
      using samples_reflect [OF assms j] .
    have "?X ! j ! ?l = mesh_x R (?us ! ?l) (?vs ! j)"
         "?Y ! j ! ?l = mesh_y R (?us ! ?l) (?vs ! j)"
         "?Z ! j ! ?l = mesh_z (?us ! ?l) (?vs ! j)"
      using j l(1) by simp_all
    then have last: "?X ! j ! ?l = mesh_x R 0 (- (?vs ! j))"
                    "?Y ! j ! ?l = mesh_y R 0 (- (?vs ! j))"
                    "?Z ! j ! ?l = mesh_z 0 (- (?vs ! j))"
      unfolding ends mesh_at_two_pi by blast+
    have "?X ! (?l - j) ! 0 = mesh_x R (?us ! 0) (?vs ! (?l - j))"
         "?Y ! (?l - j) ! 0 = mesh_y R (?us ! 0) (?vs ! (?l - j))"
         "?Z ! (?l - j) ! 0 = mesh_z (?us ! 0) (?vs ! (?l - j))"
      using j' l(2) by simp_all
    then have first: "?X ! (?l - j) ! 0 = mesh_x R 0 (- (?vs ! j))"
                     "?Y ! (?l - j) ! 0 = mesh_y R 0 (- (?vs ! j))"
                     "?Z ! (?l - j) ! 0 = mesh_z 0 (- (?vs ! j))"
      unfolding ends rf by blast+
    show ?thesis
      unfolding last first rf
      by (simp add: mesh_x_def mesh_y_def mesh_z_def)
  qed
  have "self_mesh ?m = Some (?X, ?Y, ?Z)
       \<and> self_u ?m ! 0 = 0 \<and> self_u ?m ! ?l = 2 * pi
       \<and> (\<forall>j<nat n.
             self_v ?m ! (?l - j) = - (self_v ?m ! j)
           \<and> ?X ! j ! ?l = ?X ! (?l - j) ! 0
           \<and> ?Y ! j ! ?l = ?Y ! (?l - j) ! 0
           \<and> ?Z ! j ! ?l = ?Z ! (?l - j) ! 0
           \<and> ?X ! j ! ?l = (R + (- (self_v ?m ! j)) * cos (0 / 2)) * cos 0
           \<and> ?Y ! j ! ?l = (R + (- (self_v ?m ! j)) * cos (0 / 2)) * sin 0
           \<and> ?Z ! j ! ?l = (- (self_v ?m ! j)) * sin (0 / 2))"
    unfolding f using ends rows by blast
  then show ?thesis
    unfolding init_built [OF assms] by blast
qed

theorem half_twist_closure_witness:
  "\<exists>m X Y Z. init 4 (2 / 5) 2 = Inr m \<and> self_mesh m = Some (X, Y, Z)
     \<and> self_u m ! 0 = 0 \<and> self_u m ! 1 = 2 * pi
     \<and> self_v m ! 1 = - (self_v m ! 0)
     \<and> X ! 0 ! 1 = X ! 1 ! 0 \<and> Y ! 0 ! 1 = Y ! 1 ! 0 \<and> Z ! 0 ! 1 = Z ! 1 ! 0
     \<and> X ! 0 ! 1 = 4 - self_v m ! 0"
  using half_twist_closure [of 2 4 "2 / 5"]
  by (auto simp: numeral_2_eq_2 All_less_Suc)

text \<open>
  C1. For \<open>n \<ge> 2\<close>, \<open>compute_surface_area\<close> returns the sum, over all \<open>n \<times> n\<close> grid
  points \<open>(u\<^sub>i, v\<^sub>j)\<close>, of the Euclidean norm of the cross product of \<open>\<partial>P/\<partial>u\<close> and
  \<open>\<partial>P/\<partial>v\<close>, multiplied by \<open>du = u[1] - u[0]\<close> and by \<open>dv = v[1] - v[0]\<close>. The two
  vectors are the derivatives of the position function of the mesh, and \<open>\<partial>P/\<partial>v\<close> is the
  same vector for every \<open>R\<close>.
\<close>

theorem surface_area_riemann_sum:
  assumes "2 \<le> n"
  shows "\<exists>m. init R w n = Inr m
       \<and> fst (compute_surface_area m) =
           Inr ((\<Sum>j<nat n. \<Sum>i<nat n.
                   norm3 (cross3 (partial_u R (self_u m ! i) (self_v m ! j))
                                 (partial_v (self_u m ! i))))
                * (self_u m ! 1 - self_u m ! 0) * (self_v m ! 1 - self_v m ! 0))
       \<and> (\<forall>u v. derivative_in_u R u v (partial_u R u v))
       \<and> (\<forall>R' u v. derivative_in_v R' u v (partial_v u))"
  unfolding init_built [OF assms]
  by (simp add: compute_surface_area_built [OF assms] fields_built
      area_integrand_cross partial_u_derivative partial_v_derivative)

theorem surface_area_riemann_sum_witness:
  "\<exists>m. init 4 (2 / 5) 2 = Inr m
       \<and> fst (compute_surface_area m) =
           Inr ((\<Sum>j<2. \<Sum>i<2.
                   norm3 (cross3 (partial_u 4 (self_u m ! i) (self_v m ! j))
                                 (partial_v (self_u m ! i))))
                * (self_u m ! 1 - self_u m ! 0) * (self_v m ! 1 - self_v m ! 0))"
  using surface_area_riemann_sum [of 2 4 "2 / 5"] by auto

text \<open>
  C2. For \<open>n \<ge> 2\<close>, \<open>compute_edge_length\<close> returns the sum, over all \<open>n\<close> angular
  samples \<open>u\<^sub>i\<close>, of the Euclidean norm of the derivative with respect to \<open>u\<close> of the
  boundary curve \<open>P(u, w/2)\<close>, multiplied by \<open>du = u[1] - u[0]\<close>.
\<close>

theorem edge_length_riemann_sum:
  assumes "2 \<le> n"
  shows "\<exists>m. init R w n = Inr m
       \<and> fst (compute_edge_length m) =
           Inr ((\<Sum>i<nat n. norm3 (edge_derivative R w (self_u m ! i)))
                * (self_u m ! 1 - self_u m ! 0))
       \<and> (\<forall>u. derivative_in_u R u (w / 2) (edge_derivative R w u))"
  unfolding init_built [OF assms]
  by (simp add: compute_edge_length_built [OF assms] fields_built
      edge_integrand_norm edge_derivative_derivative)

theorem edge_length_riemann_sum_witness:
  "\<exists>m. init 4 (2 / 5) 2 = Inr m
       \<and> fst (compute_edge_length m) =
           Inr ((\<Sum>i<2. norm3 (edge_derivative 4 (2 / 5) (self_u m ! i)))
                * (self_u m ! 1 - self_u m ! 0))"
  using edge_length_riemann_sum [of 2 4 "2 / 5"] by auto


text \<open>
  C6. For \<open>k > 0\<close> and \<open>n \<ge> 2\<close>, the model built from \<open>(k R, k w, n)\<close> has \<open>k\<^sup>2\<close> times
  the surface area and \<open>k\<close> times the edge length of the model built from \<open>(R, w, n)\<close>.
\<close>

theorem scale_law:
  assumes "0 < k" and "2 \<le> n"
  shows "\<exists>a l. surface_area R w n = Inr a \<and> edge_length R w n = Inr l
       \<and> surface_area (k * R) (k * w) n = Inr (k\<^sup>2 * a)
       \<and> edge_length (k * R) (k * w) n = Inr (k * l)"
  using assms
  by (simp add: surface_area_closed edge_length_closed area_sum_scale edge_sum_scale)

theorem scale_law_witness:
  "\<exists>a l. surface_area 4 (2 / 5) 2 = Inr a \<and> edge_length 4 (2 / 5) 2 = Inr l
       \<and> surface_area 12 (6 / 5) 2 = Inr (9 * a)
       \<and> edge_length 12 (6 / 5) 2 = Inr (3 * l)"
  using scale_law [of 3 2 4 "2 / 5"] by simp


text \<open>
  C7 (as the code has it). For fixed \<open>R > 0\<close> and \<open>n \<ge> 2\<close> both calls return a value
  for every width, and as \<open>w \<rightarrow> 0\<close> from above the surface area tends to \<open>0\<close> and the edge
  length tends to \<open>2\<pi>R \<cdot> n/(n-1)\<close>: all \<open>n\<close> samples of the speed, each \<open>R\<close> in the
  limit, are added and multiplied by \<open>du = 2\<pi>/(n-1)\<close>.
\<close>

theorem degenerate_width:
  assumes "0 < R" and "2 \<le> n"
  shows "(\<forall>w. surface_area R w n = Inr (area_of_width R n w)
            \<and> edge_length R w n = Inr (length_of_width R n w))
       \<and> (area_of_width R n \<longlongrightarrow> 0) (at_right 0)
       \<and> (length_of_width R n \<longlongrightarrow> 2 * pi * R * real_of_int n / (real_of_int n - 1))
           (at_right 0)"
  unfolding area_of_width_eq [OF assms(2)] length_of_width_eq [OF assms(2)]
  using area_sum_tendsto [OF assms(2)] edge_sum_tendsto [OF assms]
  by (simp add: surface_area_closed [OF assms(2)] edge_length_closed [OF assms(2)])

theorem degenerate_width_witness:
  "(area_of_width 1 2 \<longlongrightarrow> 0) (at_right 0)
   \<and> (length_of_width 1 2 \<longlongrightarrow> 4 * pi) (at_right 0)"
  using degenerate_width [of 1 2] by simp

text \<open>
  The claim C7 itself fails in its second half: with \<open>R = 1\<close> and \<open>n = 2\<close> the edge length
  tends to \<open>4\<pi>\<close>, so it does not tend to \<open>2\<pi>R = 2\<pi>\<close>.
\<close>

theorem edge_length_limit_not_circumference:
  "\<not> (length_of_width 1 2 \<longlongrightarrow> 2 * pi * 1) (at_right 0)"
proof
  assume a: "(length_of_width 1 2 \<longlongrightarrow> 2 * pi * 1) (at_right 0)"
  have "((\<lambda>w. edge_sum 1 w 2) \<longlongrightarrow> 2 * pi * 1 * real_of_int 2 / (real_of_int 2 - 1)) (at_right 0)"
    by (rule edge_sum_tendsto) simp_all
  then have b: "(length_of_width 1 2 \<longlongrightarrow> 4 * pi) (at_right 0)"
    by (simp add: length_of_width_eq)
  have "2 * pi * 1 = 4 * pi"
    using tendsto_unique [OF trivial_limit_at_right_real a b] .
  then show False
    by simp
qed


end
